theory Spec2Isabelle
  imports Complex_Main
begin

section \<open>Tensors\<close>

text \<open>
  A tensor is what torch keeps of it: its sizes and its entries in row-major order.
  Entries are real numbers; nothing proved below depends on how a float rounds.
\<close>

record tensor =
  shape :: "nat list"
  data :: "real list"

text \<open>What a failed call raises. Torch reports a shape mismatch as a RuntimeError.\<close>

datatype error = ShapeError | IndexError | TargetError

definition zeros :: "nat list \<Rightarrow> tensor" where
  "zeros shp = \<lparr>shape = shp, data = replicate (prod_list shp) 0\<rparr>"

section \<open>Layers\<close>

text \<open>
  The layer constructors of LeNet-5.py with the arguments the script gives them:
  \<open>Conv2d in_channels out_channels kernel_size\<close> (stride 1, no padding),
  \<open>MaxPool2d kernel_size\<close> (stride = kernel size, floor mode),
  \<open>Linear in_features out_features\<close>.
\<close>

datatype layer =
    Conv2d nat nat nat
  | Tanh
  | MaxPool2d nat
  | Linear nat nat

text \<open>
  Each layer function checks the sizes first, as torch does, and raises on a mismatch.
  Convolution and pooling take the 4-D batch layout (batch, channel, height, width) of the
  data model; the script never hands them anything else.
\<close>

definition conv2d :: "nat \<Rightarrow> nat \<Rightarrow> nat \<Rightarrow> tensor \<Rightarrow> tensor \<Rightarrow> tensor \<Rightarrow> error + tensor" where
  "conv2d ci co k w b x =
     (case shape x of
        [N, C, H, W] \<Rightarrow>
          if C \<noteq> ci \<or> k = 0 \<or> H < k \<or> W < k then Inl ShapeError
          else Inr \<lparr>shape = [N, co, H - k + 1, W - k + 1],
                    data = [data b ! oc +
                              sum_list [data w ! (((oc * ci + c) * k + di) * k + dj) *
                                        data x ! (((n * C + c) * H + (i + di)) * W + (j + dj)).
                                        c \<leftarrow> [0..<ci], di \<leftarrow> [0..<k], dj \<leftarrow> [0..<k]].
                            n \<leftarrow> [0..<N], oc \<leftarrow> [0..<co],
                            i \<leftarrow> [0..<H - k + 1], j \<leftarrow> [0..<W - k + 1]]\<rparr>
      | _ \<Rightarrow> Inl ShapeError)"

definition tanh_layer :: "tensor \<Rightarrow> error + tensor" where
  "tanh_layer x = Inr \<lparr>shape = shape x, data = map tanh (data x)\<rparr>"

definition max_pool2d :: "nat \<Rightarrow> tensor \<Rightarrow> error + tensor" where
  "max_pool2d k x =
     (case shape x of
        [N, C, H, W] \<Rightarrow>
          if k = 0 \<or> H < k \<or> W < k then Inl ShapeError
          else Inr \<lparr>shape = [N, C, (H - k) div k + 1, (W - k) div k + 1],
                    data = [Max (set [data x ! (((n * C + c) * H + (i * k + di)) * W + (j * k + dj)).
                                      di \<leftarrow> [0..<k], dj \<leftarrow> [0..<k]]).
                            n \<leftarrow> [0..<N], c \<leftarrow> [0..<C],
                            i \<leftarrow> [0..<(H - k) div k + 1], j \<leftarrow> [0..<(W - k) div k + 1]]\<rparr>
      | _ \<Rightarrow> Inl ShapeError)"

definition linear_layer :: "nat \<Rightarrow> nat \<Rightarrow> tensor \<Rightarrow> tensor \<Rightarrow> tensor \<Rightarrow> error + tensor" where
  "linear_layer fi fo w b x =
     (if shape x = [] \<or> last (shape x) \<noteq> fi then Inl ShapeError
      else Inr \<lparr>shape = butlast (shape x) @ [fo],
                data = [data b ! oc +
                          sum_list [data w ! (oc * fi + f) * data x ! (r * fi + f). f \<leftarrow> [0..<fi]].
                        r \<leftarrow> [0..<prod_list (butlast (shape x))], oc \<leftarrow> [0..<fo]]\<rparr>)"

text \<open>\<open>torch.flatten(x, 1)\<close>: every dimension after the first becomes one.\<close>

definition flatten1 :: "tensor \<Rightarrow> error + tensor" where
  "flatten1 x =
     (case shape x of
        d0 # d1 # rest \<Rightarrow> Inr \<lparr>shape = [d0, prod_list (d1 # rest)], data = data x\<rparr>
      | _ \<Rightarrow> Inl IndexError)"

section \<open>Program state\<close>

text \<open>
  The parameters of a module live under the names torch gives them: the block
  (\<open>features\<close> or \<open>classifier\<close>), the layer's position in the block, and
  \<open>weight\<close> or \<open>bias\<close>. The state also holds the module's training flag and the
  state of the global random generator that \<open>set_all_seeds\<close> seeds.
\<close>

datatype pname = Weight | Bias

type_synonym params = "string \<Rightarrow> nat \<Rightarrow> pname \<Rightarrow> tensor"

record state =
  parameters :: params
  training :: bool
  rng :: nat

fun apply_layer :: "string \<Rightarrow> nat \<Rightarrow> layer \<Rightarrow> tensor \<Rightarrow> state \<Rightarrow> (error + tensor) \<times> state" where
  "apply_layer blk i (Conv2d ci co k) x s =
     (conv2d ci co k (parameters s blk i Weight) (parameters s blk i Bias) x, s)"
| "apply_layer blk i Tanh x s = (tanh_layer x, s)"
| "apply_layer blk i (MaxPool2d k) x s = (max_pool2d k x, s)"
| "apply_layer blk i (Linear fi fo) x s =
     (linear_layer fi fo (parameters s blk i Weight) (parameters s blk i Bias) x, s)"

text \<open>\<open>torch.nn.Sequential\<close>: the layers in order, stopping at the first one that raises.\<close>

fun sequential :: "string \<Rightarrow> nat \<Rightarrow> layer list \<Rightarrow> tensor \<Rightarrow> state \<Rightarrow> (error + tensor) \<times> state" where
  "sequential blk i [] x s = (Inr x, s)"
| "sequential blk i (l # ls) x s =
     (case apply_layer blk i l x s of
        (Inl e, s') \<Rightarrow> (Inl e, s')
      | (Inr y, s') \<Rightarrow> sequential blk (Suc i) ls y s')"

section \<open>The model\<close>

record LeNet5_module =
  grayscale :: bool
  num_classes :: nat
  features :: "layer list"
  classifier :: "layer list"

text \<open>
  \<open>LeNet5.__init__(num_classes, grayscale=False)\<close>. The second argument is \<open>None\<close>
  when the caller leaves it out.
\<close>

definition LeNet5 :: "nat \<Rightarrow> bool option \<Rightarrow> LeNet5_module" where
  "LeNet5 nc gs =
     (let g = (case gs of None \<Rightarrow> False | Some v \<Rightarrow> v);
          in_channels = (if g then 1 else 3)
      in \<lparr>grayscale = g,
          num_classes = nc,
          features = [Conv2d in_channels 6 5, Tanh, MaxPool2d 2,
                      Conv2d 6 16 5, Tanh, MaxPool2d 2],
          classifier = [Linear (16 * 5 * 5) 120, Tanh,
                        Linear 120 84, Tanh,
                        Linear 84 nc]\<rparr>)"

definition forward :: "LeNet5_module \<Rightarrow> tensor \<Rightarrow> state \<Rightarrow> (error + tensor) \<times> state" where
  "forward m x s =
     (case sequential ''features'' 0 (features m) x s of
        (Inl e, s1) \<Rightarrow> (Inl e, s1)
      | (Inr y, s1) \<Rightarrow>
          (case flatten1 y of
             Inl e \<Rightarrow> (Inl e, s1)
           | Inr z \<Rightarrow> sequential ''classifier'' 0 (classifier m) z s1))"

text \<open>
  The line \<open>model = LeNet5(grayscale=True, num_classes=10)\<close> of the script.
\<close>

definition model :: LeNet5_module where
  "model = LeNet5 10 (Some True)"

section \<open>Sizes alone\<close>

text \<open>
  What each layer does to the sizes of its input, with the same checks as above. The
  lemmas below show that the forward pass raises, or returns a tensor of some shape,
  exactly as these functions say.
\<close>

fun layer_shape :: "layer \<Rightarrow> nat list \<Rightarrow> error + nat list" where
  "layer_shape (Conv2d ci co k) shp =
     (case shp of
        [N, C, H, W] \<Rightarrow>
          if C \<noteq> ci \<or> k = 0 \<or> H < k \<or> W < k then Inl ShapeError
          else Inr [N, co, H - k + 1, W - k + 1]
      | _ \<Rightarrow> Inl ShapeError)"
| "layer_shape Tanh shp = Inr shp"
| "layer_shape (MaxPool2d k) shp =
     (case shp of
        [N, C, H, W] \<Rightarrow>
          if k = 0 \<or> H < k \<or> W < k then Inl ShapeError
          else Inr [N, C, (H - k) div k + 1, (W - k) div k + 1]
      | _ \<Rightarrow> Inl ShapeError)"
| "layer_shape (Linear fi fo) shp =
     (if shp = [] \<or> last shp \<noteq> fi then Inl ShapeError else Inr (butlast shp @ [fo]))"

fun sequential_shape :: "layer list \<Rightarrow> nat list \<Rightarrow> error + nat list" where
  "sequential_shape [] shp = Inr shp"
| "sequential_shape (l # ls) shp =
     (case layer_shape l shp of Inl e \<Rightarrow> Inl e | Inr shp' \<Rightarrow> sequential_shape ls shp')"

definition flatten1_shape :: "nat list \<Rightarrow> error + nat list" where
  "flatten1_shape shp =
     (case shp of d0 # d1 # rest \<Rightarrow> Inr [d0, prod_list (d1 # rest)] | _ \<Rightarrow> Inl IndexError)"

definition forward_shape :: "LeNet5_module \<Rightarrow> nat list \<Rightarrow> error + nat list" where
  "forward_shape m shp =
     (case sequential_shape (features m) shp of
        Inl e \<Rightarrow> Inl e
      | Inr s1 \<Rightarrow>
          (case flatten1_shape s1 of
             Inl e \<Rightarrow> Inl e
           | Inr s2 \<Rightarrow> sequential_shape (classifier m) s2))"

section \<open>States used as examples\<close>

text \<open>
  The shapes torch gives the parameters of a layer, and a state whose parameters have
  these shapes and are all zero.
\<close>

fun param_shape :: "layer \<Rightarrow> pname \<Rightarrow> nat list" where
  "param_shape (Conv2d ci co k) Weight = [co, ci, k, k]"
| "param_shape (Conv2d ci co k) Bias = [co]"
| "param_shape (Linear fi fo) Weight = [fo, fi]"
| "param_shape (Linear fi fo) Bias = [fo]"
| "param_shape Tanh pn = []"
| "param_shape (MaxPool2d k) pn = []"

definition block :: "LeNet5_module \<Rightarrow> string \<Rightarrow> layer list" where
  "block m blk = (if blk = ''features'' then features m
                  else if blk = ''classifier'' then classifier m else [])"

definition zero_state :: "LeNet5_module \<Rightarrow> state" where
  "zero_state m =
     \<lparr>parameters = (\<lambda>blk i pn. if i < length (block m blk)
                                 then zeros (param_shape (block m blk ! i) pn) else zeros []),
      training = True,
      rng = 123\<rparr>"

section \<open>Reading the architecture\<close>

text \<open>
  A convolution stage is a convolution, an activation and a pooling layer. A dense chain
  is a run of fully connected layers with an activation between each two of them and
  none after the last; \<open>dense_chain\<close> counts its fully connected layers.
\<close>

fun is_conv_stage :: "layer list \<Rightarrow> bool" where
  "is_conv_stage [Conv2d ci co k, Tanh, MaxPool2d p] = True"
| "is_conv_stage ls = False"

fun dense_chain :: "layer list \<Rightarrow> nat option" where
  "dense_chain [Linear fi fo] = Some 1"
| "dense_chain (Linear fi fo # Tanh # rest) = map_option Suc (dense_chain rest)"
| "dense_chain ls = None"

text \<open>The spatial sizes (height, width) on which the 400-feature check of the first
  dense layer passes.\<close>

definition accepted_size :: "nat \<Rightarrow> nat \<Rightarrow> bool" where
  "accepted_size H W =
     ((H \<in> {32..35} \<and> W \<in> {32..35}) \<or> (H \<in> {16..19} \<and> W \<in> {112..115})
      \<or> (H \<in> {112..115} \<and> W \<in> {16..19}))"

section \<open>Settings\<close>

definition RANDOM_SEED :: nat where
  "RANDOM_SEED = 123"

definition BATCH_SIZE :: nat where
  "BATCH_SIZE = 256"

definition NUM_EPOCHS :: nat where
  "NUM_EPOCHS = 15"

datatype device = Cuda nat | Cpu

text \<open>\<open>torch.device('cuda:0' if torch.cuda.is_available() else 'cpu')\<close>, evaluated once
  when the script starts.\<close>

definition DEVICE :: "bool \<Rightarrow> device" where
  "DEVICE cuda_is_available = (if cuda_is_available then Cuda 0 else Cpu)"

record settings =
  seed :: nat
  batch_size :: nat
  num_epochs :: nat
  device :: device

text \<open>
  The settings the script runs with, as a function of what the process is started with:
  its command line and whether a CUDA device is there. The script never reads
  \<open>sys.argv\<close>.
\<close>

definition startup :: "string list \<Rightarrow> bool \<Rightarrow> settings" where
  "startup argv cuda_is_available =
     \<lparr>seed = RANDOM_SEED, batch_size = BATCH_SIZE, num_epochs = NUM_EPOCHS,
      device = DEVICE cuda_is_available\<rparr>"

section \<open>Optimizer and scheduler\<close>

record optimizer =
  lr :: real

text \<open>\<open>torch.optim.SGD(model.parameters(), lr = 0.1)\<close>\<close>

definition SGD :: "real \<Rightarrow> optimizer" where
  "SGD rate = \<lparr>lr = rate\<rparr>"

text \<open>One SGD step: every parameter moves against its gradient, scaled by the rate.\<close>

definition sgd_step :: "optimizer \<Rightarrow> params \<Rightarrow> state \<Rightarrow> state" where
  "sgd_step opt g s =
     s\<lparr>parameters := (\<lambda>blk i pn.
          \<lparr>shape = shape (parameters s blk i pn),
           data = map2 (\<lambda>p d. p - lr opt * d) (data (parameters s blk i pn)) (data (g blk i pn))\<rparr>)\<rparr>"

text \<open>
  \<open>torch.optim.lr_scheduler.ReduceLROnPlateau(optimizer, factor, mode='max')\<close> with torch's
  defaults for what the script leaves out: patience 10, relative threshold 1e-4, no
  cooldown, minimal rate 0, eps 1e-8. \<open>best = None\<close> is the initial minus infinity.
\<close>

record plateau =
  factor :: real
  patience :: nat
  threshold :: real
  best :: "real option"
  num_bad_epochs :: nat

definition ReduceLROnPlateau :: "real \<Rightarrow> plateau" where
  "ReduceLROnPlateau f =
     \<lparr>factor = f, patience = 10, threshold = 1 / 10000, best = None, num_bad_epochs = 0\<rparr>"

definition is_better :: "plateau \<Rightarrow> real \<Rightarrow> bool" where
  "is_better p a = (case best p of None \<Rightarrow> True | Some b \<Rightarrow> a > b * (threshold p + 1))"

definition reduce_lr :: "plateau \<Rightarrow> optimizer \<Rightarrow> optimizer" where
  "reduce_lr p opt =
     (let new_lr = max (lr opt * factor p) 0
      in if lr opt - new_lr > 1 / 100000000 then opt\<lparr>lr := new_lr\<rparr> else opt)"

text \<open>\<open>scheduler.step(metric)\<close>\<close>

definition plateau_step :: "real \<Rightarrow> plateau \<times> optimizer \<Rightarrow> plateau \<times> optimizer" where
  "plateau_step a po =
     (let p = fst po; opt = snd po;
          p1 = (if is_better p a then p\<lparr>best := Some a, num_bad_epochs := 0\<rparr>
                else p\<lparr>num_bad_epochs := num_bad_epochs p + 1\<rparr>)
      in if num_bad_epochs p1 > patience p1
         then (p1\<lparr>num_bad_epochs := 0\<rparr>, reduce_lr p1 opt)
         else (p1, opt))"

text \<open>The step at the end of an epoch: on the scheduler the training loop was given, if
  it was given one.\<close>

fun schedule :: "plateau option \<Rightarrow> real \<Rightarrow> optimizer \<Rightarrow> plateau option \<times> optimizer" where
  "schedule None a opt = (None, opt)"
| "schedule (Some p) a opt = (let po = plateau_step a (p, opt) in (Some (fst po), snd po))"

section \<open>Losses and predictions\<close>

text \<open>A batch is an image tensor with its labels; a loader is the list of its batches.\<close>

type_synonym batch = "tensor \<times> nat list"

text \<open>\<open>torch.max(logits, 1)\<close>: for each row the position of its largest score (the first
  one among equals).\<close>

definition argmax :: "real list \<Rightarrow> nat" where
  "argmax xs = length (takeWhile (\<lambda>v. v \<noteq> Max (set xs)) xs)"

definition predict :: "tensor \<Rightarrow> nat list" where
  "predict t =
     (case shape t of
        [N, C] \<Rightarrow> [argmax (take C (drop (n * C) (data t))). n \<leftarrow> [0..<N]]
      | _ \<Rightarrow> [])"

text \<open>
  \<open>torch.nn.functional.cross_entropy\<close>: the cross entropy of a batch of logits, averaged
  over the batch. Torch raises when the labels do not fit the logits. For an empty batch
  torch returns nan where the division below gives 0; no statement below is about the
  value of a loss.
\<close>

definition cross_entropy :: "tensor \<Rightarrow> nat list \<Rightarrow> error + real" where
  "cross_entropy t ys =
     (case shape t of
        [N, C] \<Rightarrow>
          if length ys \<noteq> N \<or> list_ex (\<lambda>y. C \<le> y) ys then Inl TargetError
          else Inr (sum_list [ln (sum_list [exp (data t ! (n * C + j)). j \<leftarrow> [0..<C]])
                               - data t ! (n * C + ys ! n). n \<leftarrow> [0..<N]] / real N)
      | _ \<Rightarrow> Inl TargetError)"

fun fold_err :: "('a \<Rightarrow> 's \<Rightarrow> error + 's) \<Rightarrow> 'a list \<Rightarrow> 's \<Rightarrow> error + 's" where
  "fold_err f [] s = Inr s"
| "fold_err f (a # as) s = (case f a s of Inl e \<Rightarrow> Inl e | Inr s' \<Rightarrow> fold_err f as s')"

section \<open>Evaluation\<close>

text \<open>
  Modelled from the spec: \<open>compute_confusion_matrix\<close> of \<open>helper_evaluation\<close>, which
  LeNet-5.py imports and which is not among the source files. The spec: the model runs in
  inference mode over all batches, and predicted-vs-actual label counts are accumulated
  into a 10 x 10 matrix. The row is the true class, the column the predicted one; a label
  or a prediction outside the matrix raises, as an index out of range does. The forward
  pass inside is the one of LeNet-5.py.
\<close>

definition count_pair :: "nat \<times> nat \<Rightarrow> nat list list \<Rightarrow> error + nat list list" where
  "count_pair tp mat =
     (let t = fst tp; p = snd tp
      in if 10 \<le> t \<or> 10 \<le> p then Inl IndexError
         else Inr (mat[t := (mat ! t)[p := mat ! t ! p + 1]]))"

definition count_batch :: "LeNet5_module \<Rightarrow> state \<Rightarrow> batch \<Rightarrow> nat list list \<Rightarrow> error + nat list list" where
  "count_batch m s b mat =
     (case fst (forward m (fst b) s) of
        Inl e \<Rightarrow> Inl e
      | Inr logits \<Rightarrow> fold_err count_pair (zip (snd b) (predict logits)) mat)"

definition compute_confusion_matrix :: "LeNet5_module \<Rightarrow> batch list \<Rightarrow> state \<Rightarrow> error + nat list list" where
  "compute_confusion_matrix m data_loader s =
     fold_err (count_batch m s) data_loader (replicate 10 (replicate 10 0))"

text \<open>
  Modelled from the spec: the accuracy evaluation of the training loop (a helper of
  \<open>helper_train\<close>, not among the source files). The spec: accuracy on a set, without
  gradient computation. Here: the share of examples whose predicted label is the true one,
  in percent. On a loader without examples torch divides zero by zero and gets nan, the
  division below gives 0; no statement below is about the value of an accuracy.
\<close>

definition accuracy_batch :: "LeNet5_module \<Rightarrow> state \<Rightarrow> batch \<Rightarrow> nat \<times> nat \<Rightarrow> error + nat \<times> nat" where
  "accuracy_batch m s b ct =
     (case fst (forward m (fst b) s) of
        Inl e \<Rightarrow> Inl e
      | Inr logits \<Rightarrow>
          Inr (fst ct + length (filter (\<lambda>yp. fst yp = snd yp) (zip (snd b) (predict logits))),
               snd ct + length (snd b)))"

definition compute_accuracy :: "LeNet5_module \<Rightarrow> batch list \<Rightarrow> state \<Rightarrow> error + real" where
  "compute_accuracy m data_loader s =
     (case fold_err (accuracy_batch m s) data_loader (0, 0) of
        Inl e \<Rightarrow> Inl e
      | Inr ct \<Rightarrow> Inr (real (fst ct) / real (snd ct) * 100))"

section \<open>Invariants of the data model\<close>

text \<open>
  The spec's invariant of a batch: the labels are as many as the images.
\<close>

definition consistent_batch :: "batch \<Rightarrow> bool" where
  "consistent_batch b = (case shape (fst b) of [] \<Rightarrow> False | N # rest \<Rightarrow> length (snd b) = N)"

text \<open>
  The invariant of the counting loop: the matrix has 10 rows of 10 entries, every label
  seen so far is below 10, and the sum of row i is the number of labels seen so far that
  are i.
\<close>

definition tallies :: "nat list list \<Rightarrow> nat list \<Rightarrow> bool" where
  "tallies mat seen =
     (length mat = 10 \<and> list_all (\<lambda>t. t < 10) seen
      \<and> list_all (\<lambda>i. length (mat ! i) = 10 \<and> sum_list (mat ! i) = count_list seen i) [0..<10])"

text \<open>
  A batch as the script's loaders yield it: single-channel, 32 x 32 after the resize
  transform, as many labels as images, every label a digit.
\<close>

definition valid_batch :: "batch \<Rightarrow> bool" where
  "valid_batch b =
     (case shape (fst b) of
        [N, C, H, W] \<Rightarrow> C = 1 \<and> H = 32 \<and> W = 32 \<and> length (snd b) = N
                        \<and> list_all (\<lambda>y. y < 10) (snd b)
      | _ \<Rightarrow> False)"

section \<open>Training loop\<close>

text \<open>
  Modelled from the spec: \<open>helper_train.train_model\<close> is imported by LeNet-5.py and is not
  among the source files. The spec: for each epoch, for each batch, forward pass, cross
  entropy loss, backward pass, optimizer step, and the loss is appended to the loss history;
  after the batches of an epoch the accuracies on the training and the validation set are
  appended to their histories and the learning rate schedule is stepped on the validation
  accuracy; the loop ends after the given number of epochs and returns the three histories.
  The schedule is stepped on the scheduler object the loop is handed; \<open>None\<close> stands for a
  call that hands it none. The backward pass is torch's automatic differentiation, here
  the argument \<open>autograd\<close>. The test loader is received; the spec gives the loop no use
  of it. The device and the logging interval of the call do not enter what the loop
  returns and are left out.
\<close>

type_synonym autograd = "LeNet5_module \<Rightarrow> state \<Rightarrow> tensor \<Rightarrow> nat list \<Rightarrow> params"

record train_state =
  net :: state
  opt :: optimizer
  sched :: "plateau option"
  minibatch_loss_list :: "real list"
  train_acc_list :: "real list"
  valid_acc_list :: "real list"

definition train_batch :: "autograd \<Rightarrow> LeNet5_module \<Rightarrow> batch \<Rightarrow> train_state \<Rightarrow> error + train_state" where
  "train_batch grad m b ts =
     (case forward m (fst b) (net ts) of
        (Inl e, s1) \<Rightarrow> Inl e
      | (Inr logits, s1) \<Rightarrow>
          (case cross_entropy logits (snd b) of
             Inl e \<Rightarrow> Inl e
           | Inr loss \<Rightarrow>
               Inr (ts\<lparr>net := sgd_step (opt ts) (grad m s1 (fst b) (snd b)) s1,
                       minibatch_loss_list := minibatch_loss_list ts @ [loss]\<rparr>)))"

text \<open>Modelled from the spec: the transition per epoch of the training loop.\<close>

definition train_epoch ::
  "autograd \<Rightarrow> LeNet5_module \<Rightarrow> batch list \<Rightarrow> batch list \<Rightarrow> train_state \<Rightarrow> error + train_state" where
  "train_epoch grad m train_loader valid_loader ts =
     (case fold_err (train_batch grad m) train_loader ts of
        Inl e \<Rightarrow> Inl e
      | Inr ts1 \<Rightarrow>
          (case compute_accuracy m train_loader (net ts1) of
             Inl e \<Rightarrow> Inl e
           | Inr train_acc \<Rightarrow>
               (case compute_accuracy m valid_loader (net ts1) of
                  Inl e \<Rightarrow> Inl e
                | Inr valid_acc \<Rightarrow>
                    (let so = schedule (sched ts1) valid_acc (opt ts1)
                     in Inr (ts1\<lparr>train_acc_list := train_acc_list ts1 @ [train_acc],
                                 valid_acc_list := valid_acc_list ts1 @ [valid_acc],
                                 sched := fst so,
                                 opt := snd so\<rparr>)))))"

text \<open>Modelled from the spec: the loop ends when the given number of epochs is reached.\<close>

fun train_epochs ::
  "nat \<Rightarrow> autograd \<Rightarrow> LeNet5_module \<Rightarrow> batch list \<Rightarrow> batch list \<Rightarrow> train_state \<Rightarrow> error + train_state" where
  "train_epochs 0 grad m train_loader valid_loader ts = Inr ts"
| "train_epochs (Suc n) grad m train_loader valid_loader ts =
     (case train_epoch grad m train_loader valid_loader ts of
        Inl e \<Rightarrow> Inl e
      | Inr ts' \<Rightarrow> train_epochs n grad m train_loader valid_loader ts')"

text \<open>
  Modelled from the spec: \<open>train_model\<close> of \<open>helper_train\<close>. \<open>train_loop\<close> is the
  loop with everything it leaves behind (the parameters, the optimizer and the histories);
  \<open>train_model\<close> returns the three histories, as the call in LeNet-5.py receives them.
\<close>

definition train_loop ::
  "autograd \<Rightarrow> LeNet5_module \<Rightarrow> nat \<Rightarrow> batch list \<Rightarrow> batch list \<Rightarrow> batch list \<Rightarrow> optimizer \<Rightarrow>
   plateau option \<Rightarrow> state \<Rightarrow> error + train_state" where
  "train_loop grad m n_epochs train_loader valid_loader test_loader optim scheduler s =
     train_epochs n_epochs grad m train_loader valid_loader
       \<lparr>net = s, opt = optim, sched = scheduler,
        minibatch_loss_list = [], train_acc_list = [], valid_acc_list = []\<rparr>"

definition train_model ::
  "autograd \<Rightarrow> LeNet5_module \<Rightarrow> nat \<Rightarrow> batch list \<Rightarrow> batch list \<Rightarrow> batch list \<Rightarrow> optimizer \<Rightarrow>
   plateau option \<Rightarrow> state \<Rightarrow> error + real list \<times> real list \<times> real list" where
  "train_model grad m n_epochs train_loader valid_loader test_loader optim scheduler s =
     (case train_loop grad m n_epochs train_loader valid_loader test_loader optim scheduler s of
        Inl e \<Rightarrow> Inl e
      | Inr ts \<Rightarrow> Inr (minibatch_loss_list ts, train_acc_list ts, valid_acc_list ts))"

section \<open>The script\<close>

text \<open>
  What the script is run with: the command line, whether CUDA is there, the three loaders
  of \<open>get_dataloaders_mnist\<close>, the values torch draws for the parameters, and torch's
  automatic differentiation.
\<close>

record env =
  argv :: "string list"
  cuda_is_available :: bool
  train_loader :: "batch list"
  valid_loader :: "batch list"
  test_loader :: "batch list"
  initial_parameters :: params
  backward :: autograd

definition optimizer :: optimizer where
  "optimizer = SGD (1 / 10)"

definition scheduler :: plateau where
  "scheduler = ReduceLROnPlateau (1 / 10)"

definition initial_state :: "env \<Rightarrow> state" where
  "initial_state e = \<lparr>parameters = initial_parameters e, training = True, rng = RANDOM_SEED\<rparr>"

text \<open>
  The call \<open>train_model(model, num_epochs, train_loader, valid_loader, test_loader,
  optimizer, device, logging_interval)\<close> of the script: the scheduler built just before is
  not among its arguments.
\<close>

definition run_training :: "env \<Rightarrow> error + train_state" where
  "run_training e =
     train_loop (backward e) model NUM_EPOCHS (train_loader e) (valid_loader e) (test_loader e)
       optimizer None (initial_state e)"

section \<open>The forward pass and the state\<close>

lemma apply_layer_state: "snd (apply_layer blk i l x s) = s"
  by (cases l) simp_all

lemma sequential_state: "snd (sequential blk i ls x s) = s"
proof (induction ls arbitrary: i x)
  case Nil
  show ?case by simp
next
  case (Cons l ls)
  show ?case
  proof (cases "apply_layer blk i l x s")
    case (Pair r s')
    with apply_layer_state [of blk i l x s] have s': "s' = s" by simp
    show ?thesis using Pair s' Cons.IH by (cases r) simp_all
  qed
qed

section \<open>The forward pass and the sizes\<close>

lemma conv2d_shape:
  "map_sum id shape (conv2d ci co k w b x) = layer_shape (Conv2d ci co k) (shape x)"
  by (simp add: conv2d_def split: list.splits)

lemma max_pool2d_shape:
  "map_sum id shape (max_pool2d k x) = layer_shape (MaxPool2d k) (shape x)"
  by (simp add: max_pool2d_def split: list.splits)

lemma linear_shape:
  "map_sum id shape (linear_layer fi fo w b x) = layer_shape (Linear fi fo) (shape x)"
  by (simp add: linear_layer_def)

lemma apply_layer_shape:
  "map_sum id shape (fst (apply_layer blk i l x s)) = layer_shape l (shape x)"
  by (cases l) (simp_all add: conv2d_shape max_pool2d_shape linear_shape tanh_layer_def)

lemma sequential_shape_of:
  "map_sum id shape (fst (sequential blk i ls x s)) = sequential_shape ls (shape x)"
proof (induction ls arbitrary: i x)
  case Nil
  show ?case by simp
next
  case (Cons l ls)
  obtain r s' where p: "apply_layer blk i l x s = (r, s')" by (cases "apply_layer blk i l x s")
  have s': "s' = s" using apply_layer_state [of blk i l x s] p by simp
  have r: "map_sum id shape r = layer_shape l (shape x)"
    using apply_layer_shape [of blk i l x s] p by simp
  show ?case
  proof (cases r)
    case (Inl e)
    then have "layer_shape l (shape x) = Inl e" using r by simp
    then show ?thesis using p Inl by simp
  next
    case (Inr y)
    then have "layer_shape l (shape x) = Inr (shape y)" using r by simp
    then show ?thesis using p Inr s' Cons.IH [of "Suc i" y] by simp
  qed
qed

lemma flatten1_shape_of: "map_sum id shape (flatten1 x) = flatten1_shape (shape x)"
  by (simp add: flatten1_def flatten1_shape_def split: list.splits)

lemma forward_shape_of:
  "map_sum id shape (fst (forward m x s)) = forward_shape m (shape x)"
proof -
  obtain r s1 where p: "sequential ''features'' 0 (features m) x s = (r, s1)"
    by (cases "sequential ''features'' 0 (features m) x s")
  have r: "map_sum id shape r = sequential_shape (features m) (shape x)"
    using sequential_shape_of [of "''features''" 0 "features m" x s] p by simp
  show ?thesis
  proof (cases r)
    case (Inl e)
    then have "sequential_shape (features m) (shape x) = Inl e" using r by simp
    then show ?thesis using p Inl by (simp add: forward_def forward_shape_def)
  next
    case (Inr y)
    then have fy: "sequential_shape (features m) (shape x) = Inr (shape y)" using r by simp
    show ?thesis
    proof (cases "flatten1 y")
      case (Inl e)
      then have "flatten1_shape (shape y) = Inl e" using flatten1_shape_of [of y] by simp
      then show ?thesis using p Inr Inl fy by (simp add: forward_def forward_shape_def)
    next
      case (Inr z)
      then have "flatten1_shape (shape y) = Inr (shape z)" using flatten1_shape_of [of y] by simp
      then show ?thesis
        using p \<open>r = Inr y\<close> Inr fy sequential_shape_of [of "''classifier''" 0 "classifier m" z s1]
        by (simp add: forward_def forward_shape_def)
    qed
  qed
qed

lemma forward_returns:
  assumes "forward_shape m (shape x) = Inr shp"
  shows "\<exists>y. fst (forward m x s) = Inr y \<and> shape y = shp"
proof (cases "fst (forward m x s)")
  case (Inl e)
  then show ?thesis using forward_shape_of [of m x s] assms by simp
next
  case (Inr y)
  then show ?thesis using forward_shape_of [of m x s] assms by simp
qed

lemma forward_raises:
  assumes "forward_shape m (shape x) = Inl e"
  shows "fst (forward m x s) = Inl e"
proof (cases "fst (forward m x s)")
  case (Inl e')
  then show ?thesis using forward_shape_of [of m x s] assms by simp
next
  case (Inr y)
  then show ?thesis using forward_shape_of [of m x s] assms by simp
qed

lemma forward_shape_32:
  "forward_shape (LeNet5 nc (Some g)) [N, if g then 1 else 3, 32, 32] = Inr [N, nc]"
  by (simp add: forward_shape_def LeNet5_def flatten1_shape_def)

section \<open>What the forward pass depends on\<close>

lemma apply_layer_reads_parameters:
  "parameters s = parameters s' \<Longrightarrow> fst (apply_layer blk i l x s) = fst (apply_layer blk i l x s')"
  by (cases l) simp_all

lemma sequential_reads_parameters:
  assumes "parameters s = parameters s'"
  shows "fst (sequential blk i ls x s) = fst (sequential blk i ls x s')"
proof (induction ls arbitrary: i x)
  case Nil
  show ?case by simp
next
  case (Cons l ls)
  obtain r t where p: "apply_layer blk i l x s = (r, t)" by (cases "apply_layer blk i l x s")
  obtain r' t' where p': "apply_layer blk i l x s' = (r', t')" by (cases "apply_layer blk i l x s'")
  have t: "t = s" using apply_layer_state [of blk i l x s] p by simp
  have t': "t' = s'" using apply_layer_state [of blk i l x s'] p' by simp
  have r: "r' = r" using apply_layer_reads_parameters [OF assms, of blk i l x] p p' by simp
  show ?case using p p' t t' r Cons.IH by (cases r) simp_all
qed

lemma forward_state: "snd (forward m x s) = s"
proof -
  obtain r t where p: "sequential ''features'' 0 (features m) x s = (r, t)"
    by (cases "sequential ''features'' 0 (features m) x s")
  have t: "t = s" using sequential_state [of "''features''" 0 "features m" x s] p by simp
  show ?thesis
  proof (cases r)
    case (Inl e)
    then show ?thesis using p t by (simp add: forward_def)
  next
    case (Inr y)
    then show ?thesis using p t
      by (cases "flatten1 y") (simp_all add: forward_def sequential_state)
  qed
qed

lemma forward_reads_parameters:
  assumes "parameters s = parameters s'"
  shows "fst (forward m x s) = fst (forward m x s')"
proof -
  obtain r t where p: "sequential ''features'' 0 (features m) x s = (r, t)"
    by (cases "sequential ''features'' 0 (features m) x s")
  obtain r' t' where p': "sequential ''features'' 0 (features m) x s' = (r', t')"
    by (cases "sequential ''features'' 0 (features m) x s'")
  have t: "t = s" using sequential_state [of "''features''" 0 "features m" x s] p by simp
  have t': "t' = s'" using sequential_state [of "''features''" 0 "features m" x s'] p' by simp
  have r: "r' = r"
    using sequential_reads_parameters [OF assms, of "''features''" 0 "features m" x] p p' by simp
  show ?thesis
  proof (cases r)
    case (Inl e)
    then show ?thesis using p p' r by (simp add: forward_def)
  next
    case (Inr y)
    show ?thesis
    proof (cases "flatten1 y")
      case (Inl e)
      then show ?thesis using p p' r Inr by (simp add: forward_def)
    next
      case (Inr z)
      then show ?thesis
        using p p' r \<open>r = Inr y\<close> t t'
          sequential_reads_parameters [OF assms, of "''classifier''" 0 "classifier m" z]
        by (simp add: forward_def)
    qed
  qed
qed

lemma sequential_last:
  "fst (sequential blk i (ls @ [l]) x s) = Inr y \<Longrightarrow>
   \<exists>h. fst (apply_layer blk (i + length ls) l h s) = Inr y"
proof (induction ls arbitrary: i x)
  case Nil
  obtain r t where p: "apply_layer blk i l x s = (r, t)" by (cases "apply_layer blk i l x s")
  with Nil have "r = Inr y" by (cases r) simp_all
  with p have "fst (apply_layer blk (i + length []) l x s) = Inr y" by simp
  then show ?case by blast
next
  case (Cons a ls)
  obtain r t where p: "apply_layer blk i a x s = (r, t)" by (cases "apply_layer blk i a x s")
  have t: "t = s" using apply_layer_state [of blk i a x s] p by simp
  show ?case
  proof (cases r)
    case (Inl e)
    then show ?thesis using Cons.prems p by simp
  next
    case (Inr z)
    then have "fst (sequential blk (Suc i) (ls @ [l]) z s) = Inr y"
      using Cons.prems p t by simp
    from Cons.IH [OF this] show ?thesis by simp
  qed
qed

lemma logits_from_last_linear:
  assumes "fst (forward (LeNet5 nc gs) x s) = Inr y"
  shows "\<exists>h. linear_layer 84 nc (parameters s ''classifier'' 4 Weight)
               (parameters s ''classifier'' 4 Bias) h = Inr y"
proof -
  let ?m = "LeNet5 nc gs"
  have c: "classifier ?m = [Linear 400 120, Tanh, Linear 120 84, Tanh] @ [Linear 84 nc]"
    by (simp add: LeNet5_def Let_def)
  obtain r t where p: "sequential ''features'' 0 (features ?m) x s = (r, t)"
    by (cases "sequential ''features'' 0 (features ?m) x s")
  have t: "t = s" using sequential_state [of "''features''" 0 "features ?m" x s] p by simp
  from assms p obtain f where r: "r = Inr f" by (cases r) (simp_all add: forward_def)
  from assms p r obtain z where z: "flatten1 f = Inr z"
    by (cases "flatten1 f") (simp_all add: forward_def)
  have "fst (sequential ''classifier'' 0
          ([Linear 400 120, Tanh, Linear 120 84, Tanh] @ [Linear 84 nc]) z s) = Inr y"
    using assms p r z t c by (simp add: forward_def)
  from sequential_last [OF this] show ?thesis by (simp add: numeral_eq_Suc)
qed

lemma linear_layer_entries:
  assumes "linear_layer fi fo w b h = Inr y"
  shows "shape y = butlast (shape h) @ [fo] \<and> length (data y) = prod_list (butlast (shape h)) * fo"
proof -
  from assms have y: "y = \<lparr>shape = butlast (shape h) @ [fo],
                data = [data b ! oc +
                          sum_list [data w ! (oc * fi + f) * data h ! (r * fi + f). f \<leftarrow> [0..<fi]].
                        r \<leftarrow> [0..<prod_list (butlast (shape h))], oc \<leftarrow> [0..<fo]]\<rparr>"
    by (auto simp: linear_layer_def split: if_splits)
  show ?thesis unfolding y by (simp add: length_concat o_def sum_list_triv)
qed

lemma logits_entries:
  assumes "fst (forward (LeNet5 nc gs) x s) = Inr y" and "shape y = [N, nc]"
  shows "length (data y) = N * nc"
proof -
  from logits_from_last_linear [OF assms(1)] obtain h where
    "linear_layer 84 nc (parameters s ''classifier'' 4 Weight)
       (parameters s ''classifier'' 4 Bias) h = Inr y" by blast
  from linear_layer_entries [OF this] assms(2)
  have "butlast (shape h) @ [nc] = [N, nc]" and l: "length (data y) = prod_list (butlast (shape h)) * nc"
    by simp_all
  then have "butlast (shape h) = [N]" by simp
  with l show ?thesis by simp
qed

lemma seq_ok:
  "layer_shape l shp = Inr shp' \<Longrightarrow> sequential_shape (l # ls) shp = sequential_shape ls shp'"
  by simp

lemma seq_err: "layer_shape l shp = Inl e \<Longrightarrow> sequential_shape (l # ls) shp = Inl e"
  by simp

lemma seq_tanh: "sequential_shape (Tanh # ls) shp = sequential_shape ls shp"
  by simp

lemma conv5_shape:
  assumes "5 \<le> H" "5 \<le> W"
  shows "layer_shape (Conv2d ci co 5) [N, ci, H, W] = Inr [N, co, H - 4, W - 4]"
proof -
  from assms have "H - 5 + 1 = H - 4" "W - 5 + 1 = W - 4" "\<not> H < 5" "\<not> W < 5" by arith+
  then show ?thesis by simp
qed

lemma pool2_shape:
  assumes "2 \<le> H" "2 \<le> W"
  shows "layer_shape (MaxPool2d 2) [N, C, H, W] = Inr [N, C, H div 2, W div 2]"
proof -
  from assms have "(H - 2) div 2 + 1 = H div 2" "(W - 2) div 2 + 1 = W div 2"
    "\<not> H < 2" "\<not> W < 2" by arith+
  then show ?thesis by simp
qed

lemma conv_stage_shape:
  "sequential_shape (Conv2d ci co 5 # Tanh # MaxPool2d 2 # rest) [N, ci, H, W] =
     (if 6 \<le> H \<and> 6 \<le> W then sequential_shape rest [N, co, (H - 4) div 2, (W - 4) div 2]
      else Inl ShapeError)"
proof (cases "6 \<le> H \<and> 6 \<le> W")
  case True
  then have "5 \<le> H" "5 \<le> W" "2 \<le> H - 4" "2 \<le> W - 4" by arith+
  then have "sequential_shape (Conv2d ci co 5 # Tanh # MaxPool2d 2 # rest) [N, ci, H, W] =
      sequential_shape rest [N, co, (H - 4) div 2, (W - 4) div 2]"
    by (simp only: seq_ok [OF conv5_shape] seq_tanh seq_ok [OF pool2_shape])
  then show ?thesis using True by simp
next
  case False
  have "sequential_shape (Conv2d ci co 5 # Tanh # MaxPool2d 2 # rest) [N, ci, H, W] = Inl ShapeError"
  proof (cases "5 \<le> H \<and> 5 \<le> W")
    case True
    then have a: "5 \<le> H" "5 \<le> W" by simp_all
    from True False have "H - 4 < 2 \<or> W - 4 < 2" by arith
    then have p: "layer_shape (MaxPool2d 2) [N, co, H - 4, W - 4] = Inl ShapeError"
      by auto
    show ?thesis
      by (simp only: seq_ok [OF conv5_shape [OF a]] seq_tanh seq_err [OF p])
  next
    case f: False
    then have "H < 5 \<or> W < 5" by arith
    then have c: "layer_shape (Conv2d ci co 5) [N, ci, H, W] = Inl ShapeError"
      by auto
    show ?thesis by (simp only: seq_err [OF c])
  qed
  with False show ?thesis by (simp only: if_False)
qed

lemma features_shape_gray:
  "sequential_shape (features (LeNet5 nc (Some True))) [N, 1, H, W] =
     (if 16 \<le> H \<and> 16 \<le> W
      then Inr [N, 16, ((H - 4) div 2 - 4) div 2, ((W - 4) div 2 - 4) div 2]
      else Inl ShapeError)"
proof -
  have f: "features (LeNet5 nc (Some True)) =
      Conv2d 1 6 5 # Tanh # MaxPool2d 2 # Conv2d 6 16 5 # Tanh # MaxPool2d 2 # []"
    by (simp add: LeNet5_def)
  have a: "(6 \<le> H \<and> 6 \<le> (H - 4) div 2) = (16 \<le> H)" by arith
  have b: "(6 \<le> W \<and> 6 \<le> (W - 4) div 2) = (16 \<le> W)" by arith
  have e: "sequential_shape (features (LeNet5 nc (Some True))) [N, 1, H, W] =
      (if 6 \<le> H \<and> 6 \<le> W
       then (if 6 \<le> (H - 4) div 2 \<and> 6 \<le> (W - 4) div 2
             then Inr [N, 16, ((H - 4) div 2 - 4) div 2, ((W - 4) div 2 - 4) div 2]
             else Inl ShapeError)
       else Inl ShapeError)"
    by (simp only: f conv_stage_shape sequential_shape.simps(1))
  show ?thesis
  proof (cases "16 \<le> H \<and> 16 \<le> W")
    case True
    with a b have "6 \<le> H \<and> 6 \<le> W" "6 \<le> (H - 4) div 2 \<and> 6 \<le> (W - 4) div 2" by blast+
    with True show ?thesis unfolding e by simp
  next
    case False
    with a b have "\<not> (6 \<le> H \<and> 6 \<le> W) \<or> \<not> (6 \<le> (H - 4) div 2 \<and> 6 \<le> (W - 4) div 2)"
      by blast
    then have "sequential_shape (features (LeNet5 nc (Some True))) [N, 1, H, W] = Inl ShapeError"
      unfolding e by auto
    with False show ?thesis by (simp only: if_False)
  qed
qed


lemma classifier_shape:
  "sequential_shape (classifier (LeNet5 nc gs)) [N, F] =
     (if F = 400 then Inr [N, nc] else Inl ShapeError)"
  by (simp add: LeNet5_def Let_def)

lemma forward_shape_gray:
  "forward_shape (LeNet5 nc (Some True)) [N, 1, H, W] =
     (if 16 \<le> H \<and> 16 \<le> W
         \<and> ((H - 4) div 2 - 4) div 2 * (((W - 4) div 2 - 4) div 2) = 25
      then Inr [N, nc] else Inl ShapeError)"
proof (cases "16 \<le> H \<and> 16 \<le> W")
  case True
  have "16 * (((H - 4) div 2 - 4) div 2 * (((W - 4) div 2 - 4) div 2)) = 400 \<longleftrightarrow>
        ((H - 4) div 2 - 4) div 2 * (((W - 4) div 2 - 4) div 2) = 25"
    by arith
  then show ?thesis unfolding forward_shape_def features_shape_gray using True
    by (simp add: flatten1_shape_def classifier_shape)
next
  case False
  then show ?thesis unfolding forward_shape_def features_shape_gray
    by auto
qed

lemma prod25:
  fixes a b :: nat
  assumes "a * b = 25"
  shows "(a = 1 \<and> b = 25) \<or> (a = 5 \<and> b = 5) \<or> (a = 25 \<and> b = 1)"
proof -
  have "a dvd 25" using assms by (metis dvd_triv_left)
  then have "a \<le> 25" by (simp add: dvd_imp_le)
  then have "a \<in> {0,1,2,3,4,5,6,7,8,9,10,11,12,13,14,15,16,17,18,19,20,21,22,23,24,25}"
    by (simp; arith)
  then show ?thesis using assms by (elim insertE emptyE; simp; presburger?)
qed

lemma pooled_cases:
  fixes H :: nat
  assumes "16 \<le> H"
  shows "(((H - 4) div 2 - 4) div 2 = 1 \<longleftrightarrow> H \<in> {16..19})"
    and "(((H - 4) div 2 - 4) div 2 = 5 \<longleftrightarrow> H \<in> {32..35})"
    and "(((H - 4) div 2 - 4) div 2 = 25 \<longleftrightarrow> H \<in> {112..115})"
  using assms by (simp_all; arith)+

lemma forward_gray_iff:
  "forward_shape (LeNet5 nc (Some True)) [N, 1, H, W] =
     (if accepted_size H W then Inr [N, nc] else Inl ShapeError)"
proof (cases "16 \<le> H \<and> 16 \<le> W")
  case True
  then have h: "16 \<le> H" and w: "16 \<le> W" by simp_all
  let ?a = "((H - 4) div 2 - 4) div 2"
  let ?b = "((W - 4) div 2 - 4) div 2"
  have "?a * ?b = 25 \<longleftrightarrow> (?a = 1 \<and> ?b = 25) \<or> (?a = 5 \<and> ?b = 5) \<or> (?a = 25 \<and> ?b = 1)"
    using prod25 [of ?a ?b] by auto
  then have "?a * ?b = 25 \<longleftrightarrow> accepted_size H W"
    unfolding pooled_cases [OF h] pooled_cases [OF w] accepted_size_def by blast
  then show ?thesis using True unfolding forward_shape_gray by simp
next
  case False
  then have "\<not> accepted_size H W" unfolding accepted_size_def by auto
  moreover have "forward_shape (LeNet5 nc (Some True)) [N, 1, H, W] = Inl ShapeError"
    unfolding forward_shape_gray using False by auto
  ultimately show ?thesis by simp
qed

lemma forward_shape_rgb:
  "gs \<noteq> Some True \<Longrightarrow> forward_shape (LeNet5 nc gs) [N, 1, H, W] = Inl ShapeError"
  by (cases gs) (simp_all add: forward_shape_def LeNet5_def)

section \<open>Shape of the logits\<close>

text \<open>
  C1: for every input batch with the channel count the model was built for (1 when
  grayscale, 3 otherwise) and spatial size 32 x 32, the forward pass returns, and the
  logits it returns have shape (batch size, num_classes), with batch size times
  num_classes entries, where num_classes is the constructor's argument. The script's
  model has num_classes = 10.
\<close>

theorem forward_logits_shape:
  assumes "shape x = [N, if g then 1 else 3, 32, 32]"
  shows "\<exists>y. fst (forward (LeNet5 nc (Some g)) x s) = Inr y
             \<and> shape y = [N, num_classes (LeNet5 nc (Some g))]
             \<and> length (data y) = N * num_classes (LeNet5 nc (Some g))
             \<and> num_classes (LeNet5 nc (Some g)) = nc"
proof -
  have "forward_shape (LeNet5 nc (Some g)) (shape x) = Inr [N, nc]"
    using assms forward_shape_32 [of nc g N] by simp
  from forward_returns [OF this, of s] obtain y
    where y: "fst (forward (LeNet5 nc (Some g)) x s) = Inr y" and sy: "shape y = [N, nc]"
    by blast
  have nc: "num_classes (LeNet5 nc (Some g)) = nc" by (simp add: LeNet5_def)
  from logits_entries [OF y sy] y sy show ?thesis unfolding nc by blast
qed

theorem forward_logits_shape_witness:
  "shape (zeros [256, 1, 32, 32]) = [256, if True then 1 else 3, 32, 32]
   \<and> (\<exists>y. fst (forward model (zeros [256, 1, 32, 32]) (zero_state model)) = Inr y
            \<and> shape y = [256, 10] \<and> length (data y) = 2560)"
proof -
  have h: "shape (zeros [256, 1, 32, 32]) = [256, if True then 1 else 3, 32, 32]"
    by (simp add: zeros_def)
  from forward_logits_shape [OF h, of 10 "zero_state model"]
  obtain y where "fst (forward model (zeros [256, 1, 32, 32]) (zero_state model)) = Inr y"
    and "shape y = [256, 10]" and "length (data y) = 2560"
    by (auto simp: model_def)
  with h show ?thesis by blast
qed

section \<open>Determinism of the forward pass\<close>

text \<open>
  C2: the logits (or the error raised) are a function of the parameters and the input
  alone: two runs of the forward pass from states with the same parameters, whatever the
  state of the random generator and the training flag, give the same result on the same
  input; and running the forward pass again after a first run gives the same result.
\<close>

theorem forward_deterministic:
  assumes "parameters s = parameters s'"
  shows "fst (forward m x s) = fst (forward m x s')
         \<and> fst (forward m x (snd (forward m x s))) = fst (forward m x s)"
  using forward_reads_parameters [OF assms, of m x] forward_state [of m x s] by simp

theorem forward_deterministic_witness:
  "parameters (zero_state model) = parameters ((zero_state model)\<lparr>training := False, rng := 7\<rparr>)
   \<and> fst (forward model (zeros [256, 1, 32, 32]) (zero_state model)) =
       fst (forward model (zeros [256, 1, 32, 32]) ((zero_state model)\<lparr>training := False, rng := 7\<rparr>))"
proof -
  have h: "parameters (zero_state model) =
           parameters ((zero_state model)\<lparr>training := False, rng := 7\<rparr>)"
    by simp
  from forward_deterministic [OF h, of model "zeros [256, 1, 32, 32]"] h show ?thesis by blast
qed

section \<open>The layer sequence\<close>

text \<open>
  C3: the feature extractor is two stages of convolution, activation and pooling; the
  classifier is three fully connected layers with a \<open>Tanh\<close> between each two of them
  and nothing after the third, which is \<open>Linear 84 num_classes\<close>; and whatever the forward
  pass returns is the output of that last fully connected layer itself, the per-class
  scores with no normalization applied to them.
\<close>

theorem lenet5_layer_sequence:
  "features (LeNet5 nc gs) =
     [Conv2d (if grayscale (LeNet5 nc gs) then 1 else 3) 6 5, Tanh, MaxPool2d 2,
      Conv2d 6 16 5, Tanh, MaxPool2d 2]
   \<and> classifier (LeNet5 nc gs) =
     [Linear 400 120, Tanh, Linear 120 84, Tanh, Linear 84 nc]
   \<and> (\<exists>s1 s2. features (LeNet5 nc gs) = s1 @ s2 \<and> is_conv_stage s1 \<and> is_conv_stage s2)
   \<and> dense_chain (classifier (LeNet5 nc gs)) = Some 3
   \<and> last (classifier (LeNet5 nc gs)) = Linear 84 nc
   \<and> (\<forall>x s y. fst (forward (LeNet5 nc gs) x s) = Inr y \<longrightarrow>
         (\<exists>h. linear_layer 84 nc (parameters s ''classifier'' 4 Weight)
                 (parameters s ''classifier'' 4 Bias) h = Inr y))"
proof -
  let ?g = "grayscale (LeNet5 nc gs)"
  have f: "features (LeNet5 nc gs) =
          [Conv2d (if ?g then 1 else 3) 6 5, Tanh, MaxPool2d 2, Conv2d 6 16 5, Tanh, MaxPool2d 2]"
    and k: "classifier (LeNet5 nc gs) = [Linear 400 120, Tanh, Linear 120 84, Tanh, Linear 84 nc]"
    by (simp_all add: LeNet5_def Let_def)
  have "features (LeNet5 nc gs) =
          [Conv2d (if ?g then 1 else 3) 6 5, Tanh, MaxPool2d 2] @ [Conv2d 6 16 5, Tanh, MaxPool2d 2]"
    unfolding f by simp
  moreover have "is_conv_stage [Conv2d (if ?g then 1 else 3) 6 5, Tanh, MaxPool2d 2]"
    and "is_conv_stage [Conv2d 6 16 5, Tanh, MaxPool2d 2]" by simp_all
  ultimately have a: "\<exists>s1 s2. features (LeNet5 nc gs) = s1 @ s2 \<and> is_conv_stage s1 \<and> is_conv_stage s2"
    by blast
  have b: "dense_chain (classifier (LeNet5 nc gs)) = Some 3"
    and c: "last (classifier (LeNet5 nc gs)) = Linear 84 nc"
    unfolding k by simp_all
  show ?thesis using f k a b c logits_from_last_linear [of nc gs] by blast
qed

theorem lenet5_layer_sequence_witness:
  "\<exists>y. fst (forward model (zeros [256, 1, 32, 32]) (zero_state model)) = Inr y
       \<and> (\<exists>h. linear_layer 84 10 (parameters (zero_state model) ''classifier'' 4 Weight)
                 (parameters (zero_state model) ''classifier'' 4 Bias) h = Inr y)"
proof -
  have "forward_shape model (shape (zeros [256, 1, 32, 32])) = Inr [256, 10]"
    using forward_shape_32 [of 10 True 256] by (simp add: zeros_def model_def)
  from forward_returns [OF this, of "zero_state model"]
  obtain y where y: "fst (forward model (zeros [256, 1, 32, 32]) (zero_state model)) = Inr y"
    by blast
  with lenet5_layer_sequence [of 10 "Some True"] show ?thesis
    unfolding model_def by blast
qed

section \<open>The forward pass leaves the parameters alone\<close>

text \<open>
  C4: the state after a forward pass is the state before it, so the parameters are the
  same before and after, for every model, input and state. In a step of the training loop
  (modelled from the spec) the parameters after the step are those the optimizer step
  computes from the parameters before the step: the forward pass and the loss in between
  change nothing.
\<close>

theorem forward_preserves_parameters:
  "snd (forward m x s) = s
   \<and> parameters (snd (forward m x s)) = parameters s
   \<and> (case train_batch grad m b ts of
         Inl e \<Rightarrow> True
       | Inr ts' \<Rightarrow>
           parameters (net ts') =
           parameters (sgd_step (opt ts) (grad m (net ts) (fst b) (snd b)) (net ts)))"
proof -
  have a: "snd (forward m x s) = s" by (rule forward_state)
  obtain r s1 where p: "forward m (fst b) (net ts) = (r, s1)"
    by (cases "forward m (fst b) (net ts)")
  have s1: "s1 = net ts" using forward_state [of m "fst b" "net ts"] p by simp
  have c: "case train_batch grad m b ts of
         Inl e \<Rightarrow> True
       | Inr ts' \<Rightarrow>
           parameters (net ts') =
           parameters (sgd_step (opt ts) (grad m (net ts) (fst b) (snd b)) (net ts))"
  proof (cases r)
    case (Inl e)
    then show ?thesis using p by (simp add: train_batch_def)
  next
    case (Inr logits)
    then show ?thesis using p s1
      by (cases "cross_entropy logits (snd b)") (simp_all add: train_batch_def)
  qed
  show ?thesis using a c by simp
qed

section \<open>Settings fixed in the source\<close>

text \<open>
  C8: whatever the command line, the script runs with random seed 123, batch size 256 and
  15 epochs, and with the device picked once at startup (cuda:0 when CUDA is available, the
  CPU otherwise); the random generator of the initial state holds the seed 123; the training
  run does not depend on the command line.
\<close>

theorem settings_fixed_in_source:
  "startup args cuda = \<lparr>seed = 123, batch_size = 256, num_epochs = 15,
                          device = (if cuda then Cuda 0 else Cpu)\<rparr>
   \<and> startup args cuda = startup [] cuda
   \<and> rng (initial_state e) = 123
   \<and> run_training (e\<lparr>argv := args\<rparr>) = run_training e"
  by (simp add: startup_def RANDOM_SEED_def BATCH_SIZE_def NUM_EPOCHS_def DEVICE_def
      initial_state_def run_training_def)

section \<open>Input channels\<close>

text \<open>
  C9: the first convolution of \<open>LeNet5\<close> takes 1 input channel when the grayscale flag is
  true and 3 otherwise; leaving the flag out is the same as passing false; the script
  passes true; and a model built with the flag left out or false raises a shape error on
  every single-channel batch.
\<close>

theorem grayscale_in_channels:
  assumes "shape x = [N, 1, H, W]"
  shows "hd (features (LeNet5 nc (Some g))) = Conv2d (if g then 1 else 3) 6 5
         \<and> LeNet5 nc None = LeNet5 nc (Some False)
         \<and> model = LeNet5 10 (Some True)
         \<and> fst (forward (LeNet5 nc None) x s) = Inl ShapeError
         \<and> fst (forward (LeNet5 nc (Some False)) x s) = Inl ShapeError"
proof -
  have a: "hd (features (LeNet5 nc (Some g))) = Conv2d (if g then 1 else 3) 6 5"
    and b: "LeNet5 nc None = LeNet5 nc (Some False)"
    by (simp_all add: LeNet5_def)
  have "forward_shape (LeNet5 nc None) (shape x) = Inl ShapeError"
    and "forward_shape (LeNet5 nc (Some False)) (shape x) = Inl ShapeError"
    using assms forward_shape_rgb [of None nc N H W] forward_shape_rgb [of "Some False" nc N H W]
    by simp_all
  then have "fst (forward (LeNet5 nc None) x s) = Inl ShapeError"
    and "fst (forward (LeNet5 nc (Some False)) x s) = Inl ShapeError"
    by (simp_all add: forward_raises)
  with a b show ?thesis by (simp add: model_def)
qed

theorem grayscale_in_channels_witness:
  "shape (zeros [256, 1, 32, 32]) = [256, 1, 32, 32]
   \<and> hd (features model) = Conv2d 1 6 5
   \<and> fst (forward (LeNet5 10 None) (zeros [256, 1, 32, 32]) (zero_state model)) = Inl ShapeError"
proof -
  have h: "shape (zeros [256, 1, 32, 32]) = [256, 1, 32, 32]" by (simp add: zeros_def)
  from grayscale_in_channels [OF h, of 10 True "zero_state model"] h
  show ?thesis by (simp add: model_def)
qed

section \<open>Spatial sizes the forward pass accepts\<close>

text \<open>
  C10, the claim as stated fails: a single-channel batch of spatial size 33 x 33 is not
  32 x 32, and the forward pass of the script's model returns logits of shape (1, 10) on
  it, because pooling rounds down.
\<close>

theorem forward_33_counterexample:
  "map_sum id shape (fst (forward model (zeros [1, 1, 33, 33]) (zero_state model))) = Inr [1, 10]"
proof -
  have "forward_shape model [1, 1, 33, 33] = Inr [1, 10]"
    unfolding model_def forward_gray_iff by (simp add: accepted_size_def)
  moreover have "shape (zeros [1, 1, 33, 33]) = [1, 1, 33, 33]"
    by (simp add: zeros_def)
  ultimately show ?thesis by (simp only: forward_shape_of)
qed

text \<open>
  C10, amended: on a single-channel batch of spatial size 32 x 32 the feature extractor
  yields 16 x 5 x 5, whose flattening has 400 features, the \<open>in_features\<close> of the first
  dense layer. The forward pass returns logits of shape (batch size, 10) exactly on the
  sizes of \<open>accepted_size\<close>: height and width both in 32..35, or one in 16..19 and the
  other in 112..115; on every other spatial size it raises a shape error.
\<close>

theorem forward_accepted_sizes:
  assumes "shape x = [N, 1, H, W]"
  shows "(H = 32 \<and> W = 32 \<longrightarrow>
            map_sum id shape (fst (sequential ''features'' 0 (features model) x s)) = Inr [N, 16, 5, 5]
            \<and> flatten1_shape [N, 16, 5, 5] = Inr [N, 400]
            \<and> hd (classifier model) = Linear (16 * 5 * 5) 120)
         \<and> map_sum id shape (fst (forward model x s)) =
             (if accepted_size H W then Inr [N, 10] else Inl ShapeError)"
proof -
  have a: "map_sum id shape (fst (sequential ''features'' 0 (features model) x s)) = Inr [N, 16, 5, 5]"
    if "H = 32" "W = 32"
    unfolding sequential_shape_of assms model_def features_shape_gray using that by simp
  have b: "flatten1_shape [N, 16, 5, 5] = Inr [N, 400]" by (simp add: flatten1_shape_def)
  have c: "hd (classifier model) = Linear (16 * 5 * 5) 120" by (simp add: model_def LeNet5_def)
  have d: "map_sum id shape (fst (forward model x s)) =
             (if accepted_size H W then Inr [N, 10] else Inl ShapeError)"
    unfolding forward_shape_of assms model_def by (rule forward_gray_iff)
  show ?thesis using a b c d by blast
qed

theorem forward_accepted_sizes_witness:
  "shape (zeros [256, 1, 32, 32]) = [256, 1, 32, 32]
   \<and> map_sum id shape (fst (sequential ''features'' 0 (features model) (zeros [256, 1, 32, 32])
        (zero_state model))) = Inr [256, 16, 5, 5]
   \<and> map_sum id shape (fst (forward model (zeros [256, 1, 32, 32]) (zero_state model))) = Inr [256, 10]"
proof -
  have h: "shape (zeros [256, 1, 32, 32]) = [256, 1, 32, 32]" by (simp add: zeros_def)
  from forward_accepted_sizes [OF h, of "zero_state model"] h
  show ?thesis by (simp add: accepted_size_def)
qed

section \<open>The training loop\<close>

text \<open>What a batch, an epoch and the whole loop add to the histories, and what they leave
  of the optimizer and the scheduler.\<close>

lemma train_batch_lists:
  assumes "train_batch grad m b ts = Inr ts'"
  shows "length (minibatch_loss_list ts') = Suc (length (minibatch_loss_list ts))"
    and "train_acc_list ts' = train_acc_list ts"
    and "valid_acc_list ts' = valid_acc_list ts"
    and "opt ts' = opt ts"
    and "sched ts' = sched ts"
  using assms
  by (auto simp: train_batch_def split: prod.splits sum.splits)

lemma train_batches_lists:
  assumes "fold_err (train_batch grad m) bs ts = Inr ts'"
  shows "length (minibatch_loss_list ts') = length (minibatch_loss_list ts) + length bs
         \<and> train_acc_list ts' = train_acc_list ts
         \<and> valid_acc_list ts' = valid_acc_list ts
         \<and> opt ts' = opt ts
         \<and> sched ts' = sched ts"
  using assms
proof (induction bs arbitrary: ts)
  case Nil
  then show ?case by simp
next
  case (Cons b bs)
  from Cons.prems obtain t1 where t1: "train_batch grad m b ts = Inr t1"
    and r: "fold_err (train_batch grad m) bs t1 = Inr ts'"
    by (cases "train_batch grad m b ts") simp_all
  from Cons.IH [OF r] train_batch_lists [OF t1] show ?case by simp
qed

lemma train_epoch_lists:
  assumes "train_epoch grad m trl val ts = Inr ts'"
  shows "length (minibatch_loss_list ts') = length (minibatch_loss_list ts) + length trl
         \<and> length (train_acc_list ts') = Suc (length (train_acc_list ts))
         \<and> length (valid_acc_list ts') = Suc (length (valid_acc_list ts))"
proof -
  from assms obtain t1 where t1: "fold_err (train_batch grad m) trl ts = Inr t1"
    by (cases "fold_err (train_batch grad m) trl ts") (simp_all add: train_epoch_def)
  from assms t1 obtain ta where ta: "compute_accuracy m trl (net t1) = Inr ta"
    by (cases "compute_accuracy m trl (net t1)") (simp_all add: train_epoch_def)
  from assms t1 ta obtain va where va: "compute_accuracy m val (net t1) = Inr va"
    by (cases "compute_accuracy m val (net t1)") (simp_all add: train_epoch_def)
  from assms t1 ta va have
    "ts' = t1\<lparr>train_acc_list := train_acc_list t1 @ [ta],
              valid_acc_list := valid_acc_list t1 @ [va],
              sched := fst (schedule (sched t1) va (opt t1)),
              opt := snd (schedule (sched t1) va (opt t1))\<rparr>"
    by (simp add: train_epoch_def Let_def)
  with train_batches_lists [OF t1] show ?thesis by simp
qed

lemma train_epoch_unscheduled:
  assumes "train_epoch grad m trl val ts = Inr ts'" and "sched ts = None"
  shows "sched ts' = None \<and> opt ts' = opt ts"
proof -
  from assms obtain t1 where t1: "fold_err (train_batch grad m) trl ts = Inr t1"
    by (cases "fold_err (train_batch grad m) trl ts") (simp_all add: train_epoch_def)
  from assms t1 obtain ta where ta: "compute_accuracy m trl (net t1) = Inr ta"
    by (cases "compute_accuracy m trl (net t1)") (simp_all add: train_epoch_def)
  from assms t1 ta obtain va where va: "compute_accuracy m val (net t1) = Inr va"
    by (cases "compute_accuracy m val (net t1)") (simp_all add: train_epoch_def)
  from assms t1 ta va have
    "ts' = t1\<lparr>train_acc_list := train_acc_list t1 @ [ta],
              valid_acc_list := valid_acc_list t1 @ [va],
              sched := fst (schedule (sched t1) va (opt t1)),
              opt := snd (schedule (sched t1) va (opt t1))\<rparr>"
    by (simp add: train_epoch_def Let_def)
  with train_batches_lists [OF t1] assms(2) show ?thesis by simp
qed

lemma train_epochs_lists:
  assumes "train_epochs n grad m trl val ts = Inr ts'"
  shows "length (minibatch_loss_list ts') = length (minibatch_loss_list ts) + n * length trl
         \<and> length (train_acc_list ts') = length (train_acc_list ts) + n
         \<and> length (valid_acc_list ts') = length (valid_acc_list ts) + n"
  using assms
proof (induction n arbitrary: ts)
  case 0
  then show ?case by simp
next
  case (Suc n)
  from Suc.prems obtain t1 where t1: "train_epoch grad m trl val ts = Inr t1"
    and r: "train_epochs n grad m trl val t1 = Inr ts'"
    by (cases "train_epoch grad m trl val ts") simp_all
  from Suc.IH [OF r] train_epoch_lists [OF t1] show ?case by simp
qed

lemma train_epochs_unscheduled:
  assumes "train_epochs n grad m trl val ts = Inr ts'" and "sched ts = None"
  shows "sched ts' = None \<and> opt ts' = opt ts"
  using assms
proof (induction n arbitrary: ts)
  case 0
  then show ?case by simp
next
  case (Suc n)
  from Suc.prems obtain t1 where t1: "train_epoch grad m trl val ts = Inr t1"
    and r: "train_epochs n grad m trl val t1 = Inr ts'"
    by (cases "train_epoch grad m trl val ts") simp_all
  from train_epoch_unscheduled [OF t1 Suc.prems(2)] Suc.IH [OF r] show ?case by simp
qed


text \<open>The loop returns on batches as the script's loaders yield them.\<close>

lemma fold_err_returns:
  assumes "\<And>a s. a \<in> set as \<Longrightarrow> \<exists>s'. f a s = Inr s'"
  shows "\<exists>s'. fold_err f as s = Inr s'"
  using assms
proof (induction as arbitrary: s)
  case Nil
  show ?case by simp
next
  case (Cons a as)
  from Cons.prems [of a s] obtain s1 where s1: "f a s = Inr s1" by auto
  from Cons.IH [of s1] Cons.prems obtain s' where "fold_err f as s1 = Inr s'" by auto
  with s1 show ?case by simp
qed

lemma forward_valid_batch:
  assumes "valid_batch b"
  shows "\<exists>y. fst (forward model (fst b) s) = Inr y \<and> shape y = [length (snd b), 10]"
proof -
  from assms have sh: "shape (fst b) = [length (snd b), 1, 32, 32]"
    by (auto simp: valid_batch_def split: list.splits)
  have "forward_shape model [length (snd b), 1, 32, 32] = Inr [length (snd b), 10]"
    unfolding model_def forward_gray_iff by (simp add: accepted_size_def)
  then have "forward_shape model (shape (fst b)) = Inr [length (snd b), 10]"
    by (simp only: sh)
  then show ?thesis by (rule forward_returns)
qed

lemma cross_entropy_returns:
  assumes "shape y = [N, C]" "length ys = N" "list_all (\<lambda>v. v < C) ys"
  shows "\<exists>l. cross_entropy y ys = Inr l"
proof -
  from assms(3) have "\<not> list_ex (\<lambda>v. C \<le> v) ys"
    by (auto simp: list_ex_iff list_all_iff)
  with assms(1,2) show ?thesis by (simp add: cross_entropy_def)
qed

lemma train_batch_returns:
  assumes "valid_batch b"
  shows "\<exists>ts'. train_batch grad model b ts = Inr ts'"
proof -
  from forward_valid_batch [OF assms, of "net ts"] obtain y
    where y: "fst (forward model (fst b) (net ts)) = Inr y" and sy: "shape y = [length (snd b), 10]"
    by blast
  from assms have "list_all (\<lambda>v. v < 10) (snd b)"
    by (auto simp: valid_batch_def split: list.splits)
  from cross_entropy_returns [OF sy refl this] obtain l where "cross_entropy y (snd b) = Inr l"
    by blast
  with y show ?thesis
    by (cases "forward model (fst b) (net ts)") (simp add: train_batch_def)
qed

lemma compute_accuracy_returns:
  assumes "list_all valid_batch loader"
  shows "\<exists>a. compute_accuracy model loader s = Inr a"
proof -
  have "\<exists>ct'. accuracy_batch model s b ct = Inr ct'" if "b \<in> set loader" for b ct
  proof -
    from that assms have "valid_batch b" by (simp add: list_all_iff)
    from forward_valid_batch [OF this, of s] show ?thesis
      by (auto simp: accuracy_batch_def)
  qed
  from fold_err_returns [of loader "accuracy_batch model s", OF this]
  obtain ct where "fold_err (accuracy_batch model s) loader (0, 0) = Inr ct" by blast
  then show ?thesis by (simp add: compute_accuracy_def)
qed

lemma train_epoch_returns:
  assumes "list_all valid_batch trl" "list_all valid_batch val"
  shows "\<exists>ts'. train_epoch grad model trl val ts = Inr ts'"
proof -
  have "\<exists>t'. train_batch grad model b t = Inr t'" if "b \<in> set trl" for b t
    using that assms(1) train_batch_returns [of b grad t] by (simp add: list_all_iff)
  from fold_err_returns [of trl "train_batch grad model", OF this]
  obtain t1 where t1: "fold_err (train_batch grad model) trl ts = Inr t1" by blast
  from compute_accuracy_returns [OF assms(1), of "net t1"]
  obtain ta where ta: "compute_accuracy model trl (net t1) = Inr ta" by blast
  from compute_accuracy_returns [OF assms(2), of "net t1"]
  obtain va where va: "compute_accuracy model val (net t1) = Inr va" by blast
  show ?thesis using t1 ta va by (simp add: train_epoch_def Let_def)
qed

lemma train_epochs_returns:
  assumes "list_all valid_batch trl" "list_all valid_batch val"
  shows "\<exists>ts'. train_epochs n grad model trl val ts = Inr ts'"
proof (induction n arbitrary: ts)
  case 0
  show ?case by simp
next
  case (Suc n)
  from train_epoch_returns [OF assms, of grad ts] obtain t1
    where t1: "train_epoch grad model trl val ts = Inr t1" by blast
  from Suc.IH [of t1] t1 show ?case by simp
qed

lemma train_model_returns:
  assumes "list_all valid_batch trl" "list_all valid_batch val"
  shows "\<exists>losses tacc vacc. train_model grad model n trl val tel optim sc s = Inr (losses, tacc, vacc)"
proof -
  from train_epochs_returns [OF assms, of n grad] obtain ts' where
    "train_loop grad model n trl val tel optim sc s = Inr ts'"
    unfolding train_loop_def by blast
  then show ?thesis by (simp add: train_model_def)
qed


text \<open>
  C7: when training returns its three histories, the loss history has one entry for every
  batch of every epoch, that is epochs times batches per epoch, and the two accuracy
  histories have one entry per epoch.
\<close>

theorem metric_history_lengths:
  assumes "train_model grad m n trl val tel optim sc s = Inr (losses, tacc, vacc)"
  shows "length losses = n * length trl \<and> length tacc = n \<and> length vacc = n"
proof -
  from assms obtain ts' where l: "train_loop grad m n trl val tel optim sc s = Inr ts'"
    and r: "losses = minibatch_loss_list ts'" "tacc = train_acc_list ts'" "vacc = valid_acc_list ts'"
    by (cases "train_loop grad m n trl val tel optim sc s") (simp_all add: train_model_def)
  from train_epochs_lists [OF l [unfolded train_loop_def]] r show ?thesis by simp
qed

theorem metric_history_lengths_witness:
  "\<exists>losses tacc vacc.
     train_model (\<lambda>m s x ys. parameters s) model NUM_EPOCHS
       [(zeros [2, 1, 32, 32], [3, 7]), (zeros [1, 1, 32, 32], [0])]
       [(zeros [1, 1, 32, 32], [5])] [] optimizer None (zero_state model)
       = Inr (losses, tacc, vacc)
     \<and> length losses = 30 \<and> length tacc = 15 \<and> length vacc = 15"
proof -
  have a: "list_all valid_batch [(zeros [2, 1, 32, 32], [3, 7]), (zeros [1, 1, 32, 32], [0])]"
    and b: "list_all valid_batch [(zeros [1, 1, 32, 32], [5])]"
    by (simp_all add: valid_batch_def zeros_def)
  from train_model_returns [OF a b, of "\<lambda>m s x ys. parameters s" NUM_EPOCHS "[]" optimizer None
      "zero_state model"]
  obtain losses tacc vacc where r:
    "train_model (\<lambda>m s x ys. parameters s) model NUM_EPOCHS
       [(zeros [2, 1, 32, 32], [3, 7]), (zeros [1, 1, 32, 32], [0])]
       [(zeros [1, 1, 32, 32], [5])] [] optimizer None (zero_state model)
       = Inr (losses, tacc, vacc)" by blast
  from metric_history_lengths [OF r] have
    "length losses = 30 \<and> length tacc = 15 \<and> length vacc = 15"
    by (simp add: NUM_EPOCHS_def)
  with r show ?thesis by blast
qed


section \<open>The learning rate\<close>

text \<open>A step of the scheduler lowers the rate or leaves it as it is.\<close>

lemma reduce_lr_le: "lr (reduce_lr p opt0) \<le> lr opt0"
proof -
  define n where "n = max (lr opt0 * factor p) 0"
  show ?thesis
  proof (cases "lr opt0 - n > 1 / 100000000")
    case True
    then have "n \<le> lr opt0" by simp
    with True show ?thesis by (simp add: reduce_lr_def Let_def n_def)
  next
    case False
    then show ?thesis by (simp add: reduce_lr_def Let_def n_def)
  qed
qed

lemma plateau_step_lr_le: "lr (snd (plateau_step a (p, opt0))) \<le> lr opt0"
  by (simp add: plateau_step_def Let_def reduce_lr_le)


text \<open>
  C5, evaluated: a step of the scheduler never raises the rate. Stepped on validation
  accuracies that stop improving after the third epoch (97, 98, then 98.5 for thirteen
  epochs), the scheduler of the script lowers the rate of the script's optimizer from 0.1
  to 0.01. The training run of the script never steps it: whenever the run returns, the
  rate is still 0.1 and the loop holds no scheduler.
\<close>

theorem plateau_schedule_never_stepped:
  "(\<forall>a p o1. lr (snd (plateau_step a (p, o1))) \<le> lr o1)
   \<and> lr (snd (fold plateau_step
        [97, 98, 985 / 10, 985 / 10, 985 / 10, 985 / 10, 985 / 10, 985 / 10, 985 / 10, 985 / 10,
         985 / 10, 985 / 10, 985 / 10, 985 / 10, 985 / 10]
        (scheduler, optimizer))) = 1 / 100
   \<and> (\<forall>e. case run_training e of Inl err \<Rightarrow> True
                               | Inr ts \<Rightarrow> lr (opt ts) = 1 / 10 \<and> sched ts = None)"
proof -
  have a: "lr (snd (fold plateau_step
        [97, 98, 985 / 10, 985 / 10, 985 / 10, 985 / 10, 985 / 10, 985 / 10, 985 / 10, 985 / 10,
         985 / 10, 985 / 10, 985 / 10, 985 / 10, 985 / 10]
        (scheduler, optimizer))) = 1 / 100"
    by (simp add: plateau_step_def is_better_def reduce_lr_def scheduler_def optimizer_def
        SGD_def ReduceLROnPlateau_def Let_def)
  have b: "case run_training e of Inl err \<Rightarrow> True
                               | Inr ts \<Rightarrow> lr (opt ts) = 1 / 10 \<and> sched ts = None" for e
  proof (cases "run_training e")
    case (Inl err)
    then show ?thesis by simp
  next
    case (Inr ts)
    from train_epochs_unscheduled [OF Inr [unfolded run_training_def train_loop_def]]
    show ?thesis using Inr by (simp add: optimizer_def SGD_def)
  qed
  show ?thesis using a b plateau_step_lr_le by blast
qed

section \<open>The confusion matrix\<close>

text \<open>Whatever the forward pass returns has one row per image of the batch, so there is
  one prediction per label.\<close>

lemma layer_shape_batch_dim:
  assumes "layer_shape l shp = Inr shp'"
  shows "length shp' = length shp \<and> (2 \<le> length shp \<longrightarrow> hd shp' = hd shp)"
proof (cases l)
  case (Conv2d ci co k)
  with assms show ?thesis by (auto split: list.splits if_splits)
next
  case Tanh
  with assms show ?thesis by simp
next
  case (MaxPool2d k)
  with assms show ?thesis by (auto split: list.splits if_splits)
next
  case (Linear fi fo)
  with assms have ne: "shp \<noteq> []" and e: "shp' = butlast shp @ [fo]"
    by (auto split: if_splits)
  have "hd (butlast shp @ [fo]) = hd shp" if "2 \<le> length shp"
  proof -
    from that obtain a b rest where "shp = a # b # rest"
      by (cases shp; cases "tl shp") auto
    then show ?thesis by simp
  qed
  with ne e show ?thesis by simp
qed

lemma sequential_shape_batch_dim:
  assumes "sequential_shape ls shp = Inr shp'"
  shows "length shp' = length shp \<and> (2 \<le> length shp \<longrightarrow> hd shp' = hd shp)"
  using assms
proof (induction ls arbitrary: shp)
  case Nil
  then show ?case by simp
next
  case (Cons l ls)
  from Cons.prems obtain s1 where s1: "layer_shape l shp = Inr s1"
    and r: "sequential_shape ls s1 = Inr shp'"
    by (cases "layer_shape l shp") simp_all
  from layer_shape_batch_dim [OF s1] Cons.IH [OF r] show ?case by simp
qed

lemma forward_shape_batch_dim:
  assumes "forward_shape m shp = Inr out"
  shows "shp \<noteq> [] \<and> (\<exists>C. out = [hd shp, C])"
proof -
  from assms obtain s1 where s1: "sequential_shape (features m) shp = Inr s1"
    by (cases "sequential_shape (features m) shp") (simp_all add: forward_shape_def)
  from assms s1 obtain s2 where s2: "flatten1_shape s1 = Inr s2"
    by (cases "flatten1_shape s1") (simp_all add: forward_shape_def)
  from assms s1 s2 have c: "sequential_shape (classifier m) s2 = Inr out"
    by (simp add: forward_shape_def)
  from s2 obtain d0 d1 rest where d: "s1 = d0 # d1 # rest" and s2': "s2 = [d0, prod_list (d1 # rest)]"
    by (auto simp: flatten1_shape_def split: list.splits)
  from sequential_shape_batch_dim [OF s1] d have a: "2 \<le> length shp" "hd shp = d0" by simp_all
  from sequential_shape_batch_dim [OF c] s2' have "length out = 2" "hd out = d0" by simp_all
  then obtain C where "out = [d0, C]"
    by (cases out; cases "tl out") auto
  with a show ?thesis by auto
qed

lemma length_predict: "shape t = [N, C] \<Longrightarrow> length (predict t) = N"
  by (simp add: predict_def)

lemma predictions_per_label:
  assumes "consistent_batch b" and "fst (forward m (fst b) s) = Inr logits"
  shows "length (predict logits) = length (snd b)"
proof -
  have "forward_shape m (shape (fst b)) = Inr (shape logits)"
    using forward_shape_of [of m "fst b" s] assms(2) by simp
  from forward_shape_batch_dim [OF this] obtain C
    where ne: "shape (fst b) \<noteq> []" and sh: "shape logits = [hd (shape (fst b)), C]" by blast
  from assms(1) ne have "length (snd b) = hd (shape (fst b))"
    by (cases "shape (fst b)") (simp_all add: consistent_batch_def)
  with length_predict [OF sh] show ?thesis by simp
qed

text \<open>Counting keeps the invariant.\<close>

lemma count_pair_tallies:
  assumes "count_pair (t, p) mat = Inr mat'" and "tallies mat seen"
  shows "tallies mat' (seen @ [t])"
proof -
  from assms(1) have t: "t < 10" and p: "p < 10"
    and mat': "mat' = mat[t := (mat ! t)[p := mat ! t ! p + 1]]"
    by (auto simp: count_pair_def Let_def split: if_splits)
  from assms(2) have len: "length mat = 10" and seen: "list_all (\<lambda>t. t < 10) seen"
    and rows: "\<And>i. i < 10 \<Longrightarrow> length (mat ! i) = 10 \<and> sum_list (mat ! i) = count_list seen i"
    by (simp_all add: tallies_def list_all_iff)
  have "length (mat' ! i) = 10 \<and> sum_list (mat' ! i) = count_list (seen @ [t]) i" if i: "i < 10" for i
  proof (cases "i = t")
    case True
    from rows [OF t] p have "p < length (mat ! t)" by simp
    then have "sum_list ((mat ! t)[p := mat ! t ! p + 1]) = sum_list (mat ! t) + 1"
      by (simp add: sum_list_update)
    with True rows [OF t] t len show ?thesis by (simp add: mat')
  next
    case False
    with rows [OF i] i len show ?thesis by (simp add: mat')
  qed
  with len seen t show ?thesis by (simp add: tallies_def mat' list_all_iff)
qed

lemma count_pairs_tallies:
  assumes "fold_err count_pair pairs mat = Inr mat'" and "tallies mat seen"
  shows "tallies mat' (seen @ map fst pairs)"
  using assms
proof (induction pairs arbitrary: mat seen)
  case Nil
  then show ?case by simp
next
  case (Cons tp pairs)
  obtain t p where tp: "tp = (t, p)" by (cases tp)
  from Cons.prems(1) tp obtain m1 where m1: "count_pair (t, p) mat = Inr m1"
    and r: "fold_err count_pair pairs m1 = Inr mat'"
    by (cases "count_pair (t, p) mat") simp_all
  from Cons.IH [OF r count_pair_tallies [OF m1 Cons.prems(2)]] tp show ?case by simp
qed

lemma count_batch_tallies:
  assumes "count_batch m s b mat = Inr mat'" and "tallies mat seen" and "consistent_batch b"
  shows "tallies mat' (seen @ snd b)"
proof -
  from assms(1) obtain logits where l: "fst (forward m (fst b) s) = Inr logits"
    and f: "fold_err count_pair (zip (snd b) (predict logits)) mat = Inr mat'"
    by (cases "fst (forward m (fst b) s)") (simp_all add: count_batch_def)
  from predictions_per_label [OF assms(3) l]
  have "map fst (zip (snd b) (predict logits)) = snd b" by simp
  with count_pairs_tallies [OF f assms(2)] show ?thesis by simp
qed

lemma count_batches_tallies:
  assumes "fold_err (count_batch m s) loader mat = Inr mat'" and "tallies mat seen"
    and "list_all consistent_batch loader"
  shows "tallies mat' (seen @ concat (map snd loader))"
  using assms
proof (induction loader arbitrary: mat seen)
  case Nil
  then show ?case by simp
next
  case (Cons b loader)
  from Cons.prems(1) obtain m1 where m1: "count_batch m s b mat = Inr m1"
    and r: "fold_err (count_batch m s) loader m1 = Inr mat'"
    by (cases "count_batch m s b mat") simp_all
  from Cons.prems(3) have cb: "consistent_batch b" and cl: "list_all consistent_batch loader"
    by simp_all
  from Cons.IH [OF r count_batch_tallies [OF m1 Cons.prems(2) cb] cl] show ?case by simp
qed

lemma tallies_empty: "tallies (replicate 10 (replicate 10 0)) []"
  by (simp add: tallies_def list_all_iff)

lemma indicator_sum:
  "t < n \<Longrightarrow> sum_list (map (\<lambda>c. if t = c then 1 else 0) [0..<n]) = (1::nat)"
  by (induction n) (auto simp: less_Suc_eq)

lemma count_total:
  assumes "list_all (\<lambda>t. t < n) ts"
  shows "sum_list (map (count_list ts) [0..<n]) = length ts"
  using assms
proof (induction ts)
  case Nil
  show ?case by simp
next
  case (Cons t ts)
  have "sum_list (map (count_list (t # ts)) [0..<n]) =
        sum_list (map (\<lambda>c. count_list ts c + (if t = c then 1 else 0)) [0..<n])"
    by (rule arg_cong [where f = sum_list]) simp
  also have "\<dots> = sum_list (map (count_list ts) [0..<n])
                 + sum_list (map (\<lambda>c. if t = c then 1 else 0) [0..<n])"
    by (rule sum_list_addf)
  also have "\<dots> = Suc (length ts)"
    using Cons indicator_sum [of t n] by simp
  finally have "sum_list (map (count_list (t # ts)) [0..<n]) = Suc (length ts)" .
  moreover have "length (t # ts) = Suc (length ts)" by simp
  ultimately show ?case by (simp only:)
qed

lemma tallies_sums:
  assumes "tallies mat seen"
  shows "length mat = 10 \<and> list_all (\<lambda>r. length r = 10) mat
         \<and> map sum_list mat = map (count_list seen) [0..<10]
         \<and> sum_list (map sum_list mat) = length seen"
proof -
  from assms have len: "length mat = 10" and seen: "list_all (\<lambda>t. t < 10) seen"
    and rows: "\<And>i. i < 10 \<Longrightarrow> length (mat ! i) = 10 \<and> sum_list (mat ! i) = count_list seen i"
    by (simp_all add: tallies_def list_all_iff)
  have a: "list_all (\<lambda>r. length r = 10) mat"
    unfolding list_all_length using rows len by simp
  have b: "map sum_list mat = map (count_list seen) [0..<10]"
    by (rule nth_equalityI) (use len rows in simp_all)
  from b count_total [OF seen] have "sum_list (map sum_list mat) = length seen" by simp
  with len a b show ?thesis by simp
qed

text \<open>Predictions index a column of the matrix, so counting returns on batches as the
  script's loaders yield them.\<close>

lemma argmax_less:
  assumes "0 < C" "length xs \<le> C"
  shows "argmax xs < C"
proof (cases "xs = []")
  case True
  with assms(1) show ?thesis by (simp add: argmax_def)
next
  case False
  then have "Max (set xs) \<in> set xs" by simp
  then have "takeWhile (\<lambda>v. v \<noteq> Max (set xs)) xs \<noteq> xs"
    by (auto simp: takeWhile_eq_all_conv)
  moreover have "takeWhile (\<lambda>v. v \<noteq> Max (set xs)) xs =
        take (length (takeWhile (\<lambda>v. v \<noteq> Max (set xs)) xs)) xs"
    by (rule takeWhile_eq_take)
  ultimately have "length (takeWhile (\<lambda>v. v \<noteq> Max (set xs)) xs) < length xs"
    by (metis length_takeWhile_le le_neq_implies_less take_all order_refl)
  with assms(2) show ?thesis by (simp add: argmax_def)
qed

lemma predict_less:
  assumes "shape t = [N, C]" "0 < C"
  shows "list_all (\<lambda>p. p < C) (predict t)"
  using assms argmax_less [of C]
  by (simp add: predict_def list_all_iff)

lemma count_pairs_returns:
  assumes "list_all (\<lambda>tp. fst tp < 10 \<and> snd tp < 10) pairs"
  shows "\<exists>mat'. fold_err count_pair pairs mat = Inr mat'"
proof -
  have "\<exists>m'. count_pair tp m0 = Inr m'" if "tp \<in> set pairs" for tp m0
    using that assms by (auto simp: count_pair_def Let_def list_all_iff)
  from fold_err_returns [of pairs count_pair, OF this] show ?thesis by blast
qed

lemma valid_batch_consistent: "valid_batch b \<Longrightarrow> consistent_batch b"
  by (auto simp: valid_batch_def consistent_batch_def split: list.splits)

lemma compute_confusion_matrix_returns:
  assumes "list_all valid_batch loader"
  shows "\<exists>mat. compute_confusion_matrix model loader s = Inr mat"
proof -
  have "\<exists>m'. count_batch model s b m0 = Inr m'" if "b \<in> set loader" for b m0
  proof -
    from that assms have v: "valid_batch b" by (simp add: list_all_iff)
    from forward_valid_batch [OF v, of s] obtain y
      where y: "fst (forward model (fst b) s) = Inr y" and sy: "shape y = [length (snd b), 10]"
      by blast
    from v have "list_all (\<lambda>t. t < 10) (snd b)"
      by (auto simp: valid_batch_def split: list.splits)
    moreover from predict_less [OF sy] have "list_all (\<lambda>p. p < 10) (predict y)" by simp
    ultimately have "list_all (\<lambda>tp. fst tp < 10 \<and> snd tp < 10) (zip (snd b) (predict y))"
      by (auto simp: list_all_iff dest: set_zip_leftD set_zip_rightD)
    from count_pairs_returns [OF this, of m0] y show ?thesis
      by (simp add: count_batch_def)
  qed
  from fold_err_returns [of loader "count_batch model s", OF this] show ?thesis
    by (simp add: compute_confusion_matrix_def)
qed


text \<open>
  C6: when \<open>compute_confusion_matrix\<close> returns a matrix for a loader whose batches have
  as many labels as images, the matrix is 10 x 10, the sum of row c is the number of
  examples of the loader whose true class is c, for c = 0..9, and the sum of all entries
  is the number of examples of the loader.
\<close>

theorem confusion_matrix_sums:
  assumes "compute_confusion_matrix m loader s = Inr mat"
    and "list_all consistent_batch loader"
  shows "length mat = 10 \<and> list_all (\<lambda>r. length r = 10) mat
         \<and> map sum_list mat = map (count_list (concat (map snd loader))) [0..<10]
         \<and> sum_list (map sum_list mat) = length (concat (map snd loader))"
proof -
  from count_batches_tallies [OF assms(1) [unfolded compute_confusion_matrix_def] tallies_empty assms(2)]
  have "tallies mat (concat (map snd loader))" by simp
  then show ?thesis by (rule tallies_sums)
qed



theorem confusion_matrix_sums_witness:
  "\<exists>mat. compute_confusion_matrix model
            [(zeros [2, 1, 32, 32], [3, 7]), (zeros [1, 1, 32, 32], [3])] (zero_state model) = Inr mat
         \<and> map sum_list mat = [0, 0, 0, 2, 0, 0, 0, 1, 0, 0]
         \<and> sum_list (map sum_list mat) = 3"
proof -
  let ?loader = "[(zeros [2, 1, 32, 32], [3, 7]), (zeros [1, 1, 32, 32], [3::nat])]"
  have v: "list_all valid_batch ?loader" by (simp add: valid_batch_def zeros_def)
  then have c: "list_all consistent_batch ?loader"
    by (simp add: valid_batch_consistent)
  from compute_confusion_matrix_returns [OF v, of "zero_state model"] obtain mat
    where m: "compute_confusion_matrix model ?loader (zero_state model) = Inr mat" by blast
  have u: "[0..<10] = [0, 1, 2, 3, 4, 5, 6, 7, 8, 9]" by (simp add: upt_rec)
  from confusion_matrix_sums [OF m c]
  have r: "map sum_list mat = [0, 0, 0, 2, 0, 0, 0, 1, 0, 0]" "sum_list (map sum_list mat) = 3"
    by (simp_all add: u)
  show ?thesis
  proof (rule exI [of _ mat], intro conjI)
    show "compute_confusion_matrix model ?loader (zero_state model) = Inr mat" by (fact m)
    show "map sum_list mat = [0, 0, 0, 2, 0, 0, 0, 1, 0, 0]" by (fact r(1))
    show "sum_list (map sum_list mat) = 3" by (fact r(2))
  qed
qed

end
